theory Spec2Isabelle
  imports Complex_Main
begin

section \<open>The tree of \<^verbatim>\<open>progressive/multiCactusTree.py\<close>\<close>

text \<open>
  \<^verbatim>\<open>MultiCactusTree\<close> extends sonLib's \<^verbatim>\<open>NXTree\<close>, a rooted tree kept in a
  networkx directed graph \<^verbatim>\<open>nxDg\<close>. Node ids are Python integers, a node carries an
  optional \<^verbatim>\<open>name\<close> attribute and an edge an optional \<^verbatim>\<open>weight\<close> attribute (a branch
  length). The record below holds the graph (nodes and edges in insertion order, the two
  attributes), the root id of \<^verbatim>\<open>NXTree\<close> and the three fields that
  \<^verbatim>\<open>MultiCactusTree.__init__\<close> adds. The empty string stands for "no name": it is
  what \<^verbatim>\<open>insertAbove\<close> passes for an unnamed node and what it refuses to index.
  Branch lengths are Python numbers (floats read from a Newick string, or ints that a
  caller passes). The tree only stores and copies them, so their type is the parameter
  \<open>'w\<close> of the record; the one place where the source computes with them,
  \<^verbatim>\<open>distance / 2\<close> in \<^verbatim>\<open>addOutgroup\<close>, is a parameter of that function.
\<close>

record 'w tree =
  nodes :: "int list"
  edges :: "(int \<times> int) list"
  name :: "int \<Rightarrow> string"
  weight :: "int \<times> int \<Rightarrow> 'w option"
  rootId :: int
  subtreeRoots :: "int set"
  nameToId :: "string \<Rightarrow> int option"
  subtreeSize :: nat

text \<open>
  What a call does: it returns a value, or it raises (the tree as it stands at the
  \<^verbatim>\<open>raise\<close> is kept, since the methods mutate the object in place), or it never
  returns (a traversal of a graph that is not a tree).
\<close>

datatype error = AssertionError | KeyError | UnboundLocalError | IndexError | NameConflict

datatype ('w, 'a) outcome = Returns 'a | Raises error "'w tree" | Diverges

subsection \<open>The graph and \<^verbatim>\<open>NXTree\<close>\<close>

text \<open>
  Modelled from the spec: the networkx graph operations and the methods of sonLib's
  \<^verbatim>\<open>NXTree\<close> that \<^verbatim>\<open>MultiCactusTree\<close> calls; neither is among the source files. A new
  node or edge starts with no attribute; adding an edge adds its end points; removing an
  edge drops its attributes.
\<close>

definition nx_add_node :: "'w tree \<Rightarrow> int \<Rightarrow> 'w tree" where
  "nx_add_node t n =
     (if n \<in> set (nodes t) then t
      else t\<lparr>nodes := nodes t @ [n], name := (name t)(n := [])\<rparr>)"

definition nx_add_edge :: "'w tree \<Rightarrow> int \<Rightarrow> int \<Rightarrow> 'w tree" where
  "nx_add_edge t p c =
     (let t1 = nx_add_node (nx_add_node t p) c
      in if (p, c) \<in> set (edges t1) then t1
         else t1\<lparr>edges := edges t1 @ [(p, c)], weight := (weight t1)((p, c) := None)\<rparr>)"

definition nx_remove_edge :: "'w tree \<Rightarrow> int \<Rightarrow> int \<Rightarrow> 'w tree" where
  "nx_remove_edge t p c =
     t\<lparr>edges := filter (\<lambda>e. e \<noteq> (p, c)) (edges t), weight := (weight t)((p, c) := None)\<rparr>"

text \<open>
  Modelled from the spec (section 4.1): \<^verbatim>\<open>getChildren\<close> and \<^verbatim>\<open>getParent\<close> are
  neighbour queries, and the root has no parent (an absent value, not an error).
\<close>

definition getChildren :: "'w tree \<Rightarrow> int \<Rightarrow> int list" where
  "getChildren t n = map snd (filter (\<lambda>e. fst e = n) (edges t))"

definition getParent :: "'w tree \<Rightarrow> int \<Rightarrow> int option" where
  "getParent t n =
     (case filter (\<lambda>e. snd e = n) (edges t) of [] \<Rightarrow> None | e # _ \<Rightarrow> Some (fst e))"

definition isLeaf :: "'w tree \<Rightarrow> int \<Rightarrow> bool" where
  "isLeaf t n = (getChildren t n = [])"

definition getName :: "'w tree \<Rightarrow> int \<Rightarrow> string" where
  "getName t n = name t n"

definition hasName :: "'w tree \<Rightarrow> int \<Rightarrow> bool" where
  "hasName t n = (getName t n \<noteq> [])"

text \<open>
  Modelled from the spec (section 4.1): name assignment fails if the name already exists
  on a different node. The failure is raised before anything is written.
\<close>

definition setName :: "'w tree \<Rightarrow> int \<Rightarrow> string \<Rightarrow> ('w, 'w tree) outcome" where
  "setName t n s =
     (if s \<noteq> [] \<and> (\<exists>m \<in> set (nodes t). m \<noteq> n \<and> name t m = s) then Raises NameConflict t
      else Returns (t\<lparr>name := (name t)(n := s)\<rparr>))"

definition getWeight :: "'w tree \<Rightarrow> int \<Rightarrow> int \<Rightarrow> 'w option" where
  "getWeight t p c = weight t (p, c)"

definition setWeight :: "'w tree \<Rightarrow> int \<Rightarrow> int \<Rightarrow> 'w \<Rightarrow> 'w tree" where
  "setWeight t p c w = t\<lparr>weight := (weight t)((p, c) := Some w)\<rparr>"

text \<open>
  Modelled from the spec (section 4.1): \<^verbatim>\<open>breadthFirstTraversal\<close> yields the node ids
  by distance from the root, root first, in discovery order: the root, then its children,
  then the children of those, level after level until a level is empty. The generator
  keeps no set of visited nodes, so below a cycle it never ends. The first argument of
  \<^verbatim>\<open>bfs\<close> bounds the number of levels. A graph of n nodes has more than n levels
  that are not empty only below a cycle, and the traversal then does not return.
\<close>

fun bfs :: "nat \<Rightarrow> 'w tree \<Rightarrow> int list \<Rightarrow> int list option" where
  "bfs 0 t level = None"
| "bfs (Suc depth) t level =
     (if level = [] then Some []
      else map_option ((@) level) (bfs depth t (concat (map (getChildren t) level))))"

definition breadthFirstTraversal :: "'w tree \<Rightarrow> int list option" where
  "breadthFirstTraversal t = bfs (Suc (length (nodes t))) t [rootId t]"

text \<open>
  Modelled from the spec (section 3): a tree is a single connected rooted graph in which
  every node but the root has exactly one parent. Here: no node and no edge is listed
  twice, every edge joins two nodes, no node has two parents, the root has none, and the
  traversal from the root meets every node exactly once.
\<close>

definition isTree :: "'w tree \<Rightarrow> bool" where
  "isTree t =
     (distinct (nodes t) \<and> distinct (edges t) \<and>
      (\<forall>e \<in> set (edges t). fst e \<in> set (nodes t) \<and> snd e \<in> set (nodes t)) \<and>
      distinct (map snd (edges t)) \<and>
      rootId t \<notin> snd ` set (edges t) \<and>
      (case breadthFirstTraversal t of
         None \<Rightarrow> False
       | Some xs \<Rightarrow> distinct xs \<and> set xs = set (nodes t)))"

subsection \<open>\<^verbatim>\<open>getSubtreeLeaves\<close> and \<^verbatim>\<open>computeSubtreeRoots\<close>\<close>

text \<open>
  The loop of \<^verbatim>\<open>getSubtreeLeaves\<close> (lines 108 to 110), on the pair
  \<^verbatim>\<open>(curLevel, nextLevel)\<close>. Each round makes \<^verbatim>\<open>curLevel\<close> longer and it never
  exceeds \<^verbatim>\<open>subtreeSize\<close>, so the loop ends on every graph.
\<close>

function getSubtreeLeaves_loop :: "'w tree \<Rightarrow> int list \<Rightarrow> int list \<Rightarrow> int list" where
  "getSubtreeLeaves_loop t curLevel nextLevel =
     (if length nextLevel \<le> subtreeSize t \<and> length nextLevel > length curLevel
      then getSubtreeLeaves_loop t nextLevel (concat (map (getChildren t) nextLevel))
      else curLevel)"
  by pat_completeness auto
termination
  by (relation "measure (\<lambda>(t, curLevel, nextLevel). subtreeSize t - length curLevel)") auto

declare getSubtreeLeaves_loop.simps [simp del]

definition getSubtreeLeaves :: "'w tree \<Rightarrow> int \<Rightarrow> error + int list" where
  "getSubtreeLeaves t node =
     (if \<not> length (getChildren t node) \<le> subtreeSize t then Inl AssertionError
      else Inr (getSubtreeLeaves_loop t [] (getChildren t node)))"

text \<open>
  \<^verbatim>\<open>computeSubtreeRoots\<close> calls itself from its loop over the frontier. The first
  argument bounds the depth of the calls; with none left the call does not return.
  \<^verbatim>\<open>root0 = None\<close> is the call without an argument (\<^verbatim>\<open>root\<close> in the source).
\<close>

fun computeSubtreeRoots :: "nat \<Rightarrow> 'w tree \<Rightarrow> int option \<Rightarrow> ('w, 'w tree) outcome"
  and computeSubtreeRoots_for :: "nat \<Rightarrow> 'w tree \<Rightarrow> int list \<Rightarrow> ('w, 'w tree) outcome" where
  "computeSubtreeRoots 0 t root0 = Diverges"
| "computeSubtreeRoots (Suc depth) t root0 =
     (let r = (case root0 of None \<Rightarrow> rootId t | Some x \<Rightarrow> x);
          t1 = (case root0 of None \<Rightarrow> t\<lparr>subtreeRoots := {}\<rparr> | Some x \<Rightarrow> t)
      in if r \<in> subtreeRoots t1 then Raises AssertionError t1
         else let t2 = t1\<lparr>subtreeRoots := insert r (subtreeRoots t1)\<rparr>
              in case getSubtreeLeaves t2 r of
                   Inl e \<Rightarrow> Raises e t2
                 | Inr leaves \<Rightarrow> computeSubtreeRoots_for depth t2 leaves)"
| "computeSubtreeRoots_for depth t [] = Returns t"
| "computeSubtreeRoots_for depth t (subtreeLeaf # rest) =
     (if \<not> isLeaf t subtreeLeaf
      then (case computeSubtreeRoots depth t (Some subtreeLeaf) of
              Returns t' \<Rightarrow> computeSubtreeRoots_for depth t' rest
            | other \<Rightarrow> other)
      else computeSubtreeRoots_for depth t rest)"

text \<open>
  The frontier as the specification words it: start from the direct children; as long as
  the next frontier (the children of the members of the current one) has at most
  \<^verbatim>\<open>subtreeSize\<close> members and strictly more than the current one, replace the current
  frontier with it.
\<close>

function spec_frontier :: "'w tree \<Rightarrow> int list \<Rightarrow> int list" where
  "spec_frontier t frontier =
     (let next = concat (map (getChildren t) frontier)
      in if length next \<le> subtreeSize t \<and> length frontier < length next
         then spec_frontier t next else frontier)"
  by pat_completeness auto
termination
  by (relation "measure (\<lambda>(t, frontier). subtreeSize t - length frontier)") auto

declare spec_frontier.simps [simp del]

subsection \<open>\<^verbatim>\<open>getSubtreeRoot\<close>\<close>

text \<open>
  What \<^verbatim>\<open>getSubtreeRoot\<close> hands back: a node id (line 93), a name (line 97) or
  \<^verbatim>\<open>None\<close> (line 99).
\<close>

datatype pyvalue = NodeId int | NodeName string | PyNone

text \<open>
  Line 91 looks the name up in the dictionary, which raises \<^verbatim>\<open>KeyError\<close> on a
  missing key. Line 94 reads the local variable \<^verbatim>\<open>parent\<close> before anything is
  assigned to it, which raises \<^verbatim>\<open>UnboundLocalError\<close>; the loop of lines 95 to 99 is
  never reached.
\<close>

definition getSubtreeRoot :: "'w tree \<Rightarrow> string \<Rightarrow> error + pyvalue" where
  "getSubtreeRoot t nm =
     (case nameToId t nm of
        None \<Rightarrow> Inl KeyError
      | Some node \<Rightarrow> if node = rootId t then Inr (NodeId node) else Inl UnboundLocalError)"

subsection \<open>\<^verbatim>\<open>getNextIndex\<close> and \<^verbatim>\<open>insertAbove\<close>\<close>

definition getNextIndex :: "'w tree \<Rightarrow> ('w, int) outcome" where
  "getNextIndex t =
     (case breadthFirstTraversal t of
        None \<Rightarrow> Diverges
      | Some xs \<Rightarrow> if xs = [] then Raises IndexError t else Returns (last (sort xs) + 1))"

definition insertAbove :: "'w tree \<Rightarrow> int \<Rightarrow> int \<Rightarrow> string \<Rightarrow> 'w option \<Rightarrow> ('w, 'w tree) outcome" where
  "insertAbove t node newNode newName newWeight =
     (case (case getParent t node of
              Some parent \<Rightarrow>
                (let oldWeight = getWeight t parent node;
                     t1 = nx_remove_edge t parent node;
                     t2 = nx_add_edge t1 parent newNode
                 in Returns (case oldWeight of
                               Some w \<Rightarrow> setWeight t2 parent newNode w
                             | None \<Rightarrow> t2))
            | None \<Rightarrow>
                if node \<noteq> rootId t then Raises AssertionError t
                else Returns (t\<lparr>rootId := newNode\<rparr>)) of
        Returns t3 \<Rightarrow>
          (case setName (nx_add_node t3 newNode) newNode newName of
             Returns t4 \<Rightarrow>
               (let t5 = nx_add_edge t4 newNode node;
                    t6 = (case newWeight of
                            Some w \<Rightarrow> setWeight t5 newNode node w
                          | None \<Rightarrow> t5)
                in Returns (if length newName > 0
                            then t6\<lparr>nameToId := (nameToId t6)(newName := Some newNode)\<rparr>
                            else t6))
           | other \<Rightarrow> other)
      | other \<Rightarrow> other)"

subsection \<open>\<^verbatim>\<open>addSelfEdges\<close> and \<^verbatim>\<open>makeSelfName\<close>\<close>

text \<open>\<^verbatim>\<open>name.split('.')\<close>: the pieces between the dots, at least one piece.\<close>

fun split_dot :: "string \<Rightarrow> string list" where
  "split_dot [] = [[]]"
| "split_dot (c # cs) =
     (if c = CHR ''.'' then [] # split_dot cs
      else (c # hd (split_dot cs)) # tl (split_dot cs))"

definition makeSelfName :: "string \<Rightarrow> string \<Rightarrow> string" where
  "makeSelfName nm suffix =
     (let tokens = split_dot nm
      in fold (\<lambda>token newName. newName @ ''.'' @ token) (tl tokens) (hd tokens @ suffix))"

text \<open>
  The loop of \<^verbatim>\<open>addSelfEdges\<close> over the list \<^verbatim>\<open>traversal\<close>, which is made before
  the loop starts. \<^verbatim>\<open>if parent:\<close> (line 151) is Python's truth test: it fails for
  \<^verbatim>\<open>None\<close> and also for the node id 0.
\<close>

fun addSelfEdges_loop :: "'w tree \<Rightarrow> int \<Rightarrow> string \<Rightarrow> int list \<Rightarrow> ('w, 'w tree) outcome" where
  "addSelfEdges_loop t nextIndex suffix [] = Returns t"
| "addSelfEdges_loop t nextIndex suffix (node # rest) =
     (if (node \<in> subtreeRoots t \<or> isLeaf t node) \<and> node \<noteq> rootId t
      then (let newNode = nextIndex;
                parent = getParent t node;
                weight = (case parent of
                            None \<Rightarrow> None
                          | Some p \<Rightarrow> if p \<noteq> 0 then getWeight t p node else None);
                newName = makeSelfName (getName t node) suffix
            in case insertAbove t node newNode newName weight of
                 Returns t1 \<Rightarrow>
                   addSelfEdges_loop (t1\<lparr>subtreeRoots := insert newNode (subtreeRoots t1)\<rparr>)
                     (nextIndex + 1) suffix rest
               | other \<Rightarrow> other)
      else addSelfEdges_loop t nextIndex suffix rest)"

definition addSelfEdges :: "'w tree \<Rightarrow> string \<Rightarrow> ('w, 'w tree) outcome" where
  "addSelfEdges t suffix =
     (case getNextIndex t of
        Returns nextIndex \<Rightarrow>
          (case breadthFirstTraversal t of
             None \<Rightarrow> Diverges
           | Some traversal \<Rightarrow> addSelfEdges_loop t nextIndex suffix traversal)
      | Raises e s \<Rightarrow> Raises e s
      | Diverges \<Rightarrow> Diverges)"

subsection \<open>\<^verbatim>\<open>addOutgroup\<close>\<close>

text \<open>
  The first argument \<^verbatim>\<open>halve\<close> is what Python computes for \<^verbatim>\<open>distance / 2\<close>
  (lines 171 and 172): division of a float by two with the rounding of the machine, and
  for an int floor division under Python 2, which the scripts of this tree are written
  for. It is a parameter because the number type is one.
\<close>

definition addOutgroup ::
  "('w \<Rightarrow> 'w) \<Rightarrow> 'w tree \<Rightarrow> string \<Rightarrow> 'w \<Rightarrow> ('w, 'w tree) outcome" where
  "addOutgroup halve t ogName distance =
     (if ogName \<in> dom (nameToId t) then Raises AssertionError t
      else case (if isLeaf t (rootId t)
                 then (case getNextIndex t of
                         Returns newNode \<Rightarrow>
                           (case insertAbove t (rootId t) newNode [] (Some (halve distance)) of
                              Returns t1 \<Rightarrow> Returns (t1, halve distance)
                            | Raises e s \<Rightarrow> Raises e s
                            | Diverges \<Rightarrow> Diverges)
                       | Raises e s \<Rightarrow> Raises e s
                       | Diverges \<Rightarrow> Diverges)
                 else Returns (t, distance)) of
             Returns (t1, distance1) \<Rightarrow>
               (case getNextIndex t1 of
                  Returns newNode \<Rightarrow>
                    (case setName (nx_add_edge t1 (rootId t1) newNode) newNode ogName of
                       Returns t2 \<Rightarrow>
                         Returns (setWeight (t2\<lparr>nameToId := (nameToId t2)(ogName := Some newNode)\<rparr>)
                                    (rootId t2) newNode distance1)
                     | other \<Rightarrow> other)
                | Raises e s \<Rightarrow> Raises e s
                | Diverges \<Rightarrow> Diverges)
           | Raises e s \<Rightarrow> Raises e s
           | Diverges \<Rightarrow> Diverges)"

subsection \<open>\<^verbatim>\<open>nameUnlabeledInternalNodes\<close>\<close>

text \<open>\<^verbatim>\<open>"%d" % count\<close>: the decimal digits of an integer, with a minus sign below zero.\<close>

definition digit_char :: "nat \<Rightarrow> char" where
  "digit_char d = ''0123456789'' ! d"

function str_nat :: "nat \<Rightarrow> string" where
  "str_nat n = (if n < 10 then [digit_char n] else str_nat (n div 10) @ [digit_char (n mod 10)])"
  by pat_completeness auto
termination
  by (relation "measure id") auto

declare str_nat.simps [simp del]

definition str_int :: "int \<Rightarrow> string" where
  "str_int i = (if i < 0 then CHR ''-'' # str_nat (nat (- i)) else str_nat (nat i))"

fun nameUnlabeledInternalNodes_loop :: "'w tree \<Rightarrow> string \<Rightarrow> int \<Rightarrow> int list \<Rightarrow> ('w, 'w tree) outcome" where
  "nameUnlabeledInternalNodes_loop t prefix count [] = Returns t"
| "nameUnlabeledInternalNodes_loop t prefix count (node # rest) =
     (if \<not> isLeaf t node \<and> \<not> hasName t node
      then (case setName t node (prefix @ str_int count) of
              Returns t1 \<Rightarrow>
                nameUnlabeledInternalNodes_loop
                  (t1\<lparr>nameToId := (nameToId t1)(getName t1 node := Some node)\<rparr>)
                  prefix (count + 1) rest
            | other \<Rightarrow> other)
      else nameUnlabeledInternalNodes_loop
             (t\<lparr>nameToId := (nameToId t)(getName t node := Some node)\<rparr>) prefix count rest)"

definition nameUnlabeledInternalNodes :: "'w tree \<Rightarrow> string \<Rightarrow> int \<Rightarrow> ('w, 'w tree) outcome" where
  "nameUnlabeledInternalNodes t prefix startIdx =
     (case breadthFirstTraversal t of
        None \<Rightarrow> Diverges
      | Some traversal \<Rightarrow> nameUnlabeledInternalNodes_loop t prefix startIdx traversal)"

section \<open>Trees to run the definitions on\<close>

text \<open>
  The tree \<^verbatim>\<open>((A:1,B:1)Anc0:1,C:2)Anc1;\<close> of the specification, with the ids
  0 for Anc1, 1 for Anc0, 2 for A, 3 for B and 4 for C, named and partitioned:
  the subtree roots are Anc1 and Anc0.
\<close>

definition scenario_tree :: "rat tree" where
  "scenario_tree =
     \<lparr>nodes = [0, 1, 2, 3, 4],
      edges = [(0, 1), (1, 2), (1, 3), (0, 4)],
      name = (\<lambda>n. []) (0 := ''Anc1'', 1 := ''Anc0'', 2 := ''A'', 3 := ''B'', 4 := ''C''),
      weight = (\<lambda>e. None) ((0, 1) := Some 1, (1, 2) := Some 1, (1, 3) := Some 1,
                 (0, 4) := Some 2),
      rootId = 0,
      subtreeRoots = {0, 1},
      nameToId = (\<lambda>s. None) (''Anc1'' := Some 0, ''Anc0'' := Some 1, ''A'' := Some 2,
                   ''B'' := Some 3, ''C'' := Some 4),
      subtreeSize = 2\<rparr>"

text \<open>A root with three children, under \<^verbatim>\<open>subtreeSize = 2\<close>.\<close>

definition wide_tree :: "rat tree" where
  "wide_tree =
     \<lparr>nodes = [0, 1, 2, 3],
      edges = [(0, 1), (0, 2), (0, 3)],
      name = (\<lambda>n. []) (0 := ''Anc0'', 1 := ''A'', 2 := ''B'', 3 := ''C''),
      weight = (\<lambda>e. None),
      rootId = 0,
      subtreeRoots = {},
      nameToId = (\<lambda>s. None) (''Anc0'' := Some 0, ''A'' := Some 1, ''B'' := Some 2,
                   ''C'' := Some 3),
      subtreeSize = 2\<rparr>"

text \<open>A tree that is a single leaf, as \<^verbatim>\<open>human;\<close> parses.\<close>

definition lone_tree :: "rat tree" where
  "lone_tree =
     \<lparr>nodes = [0],
      edges = [],
      name = (\<lambda>n. []) (0 := ''human''),
      weight = (\<lambda>e. None),
      rootId = 0,
      subtreeRoots = {0},
      nameToId = (\<lambda>s. None) (''human'' := Some 0),
      subtreeSize = 2\<rparr>"

text \<open>The same single leaf in a tree whose branch lengths are Python ints.\<close>

definition lone_int_tree :: "int tree" where
  "lone_int_tree =
     \<lparr>nodes = [0],
      edges = [],
      name = (\<lambda>n. []) (0 := ''human''),
      weight = (\<lambda>e. None),
      rootId = 0,
      subtreeRoots = {0},
      nameToId = (\<lambda>s. None) (''human'' := Some 0),
      subtreeSize = 2\<rparr>"

text \<open>
  The name index covers the tree: every name that a node carries is a key of
  \<^verbatim>\<open>nameToId\<close>, as it is once \<^verbatim>\<open>nameUnlabeledInternalNodes\<close> has run (which the
  docstring of the module requires before anything else).
\<close>

definition names_indexed :: "'w tree \<Rightarrow> bool" where
  "names_indexed t =
     (\<forall>m \<in> set (nodes t). hasName t m \<longrightarrow> getName t m \<in> dom (nameToId t))"

text \<open>The tree of the scenario before any internal node has a name.\<close>

definition unnamed_tree :: "rat tree" where
  "unnamed_tree =
     \<lparr>nodes = [0, 1, 2, 3, 4],
      edges = [(0, 1), (1, 2), (1, 3), (0, 4)],
      name = (\<lambda>n. []) (2 := ''A'', 3 := ''B'', 4 := ''C''),
      weight = (\<lambda>e. None) ((0, 1) := Some 1, (1, 2) := Some 1, (1, 3) := Some 1,
                 (0, 4) := Some 2),
      rootId = 0,
      subtreeRoots = {},
      nameToId = (\<lambda>s. None),
      subtreeSize = 2\<rparr>"

subsection \<open>What \<^verbatim>\<open>addSelfEdges\<close> is expected to do\<close>

text \<open>The test of lines 145 and 146: the node is a subtree root or a leaf, and not the root.\<close>

definition gets_self_node :: "'w tree \<Rightarrow> int \<Rightarrow> bool" where
  "gets_self_node t n = ((n \<in> subtreeRoots t \<or> isLeaf t n) \<and> n \<noteq> rootId t)"




section \<open>The driver of \<^verbatim>\<open>progressive/bin/cactus_progressive.py\<close>\<close>

text \<open>
  The driver is made of jobTree targets. The \<^verbatim>\<open>run\<close> method of a target does not
  execute anything itself: it hands child targets (\<^verbatim>\<open>addChildTarget\<close>) and at most
  one follow-on target (\<^verbatim>\<open>setFollowOnTarget\<close>) to jobTree. A target is modelled by
  its class and its event; the options and the project, which the three classes only
  pass on, are left out, except for the flag \<^verbatim>\<open>options.nonRecursive\<close>.
\<close>

type_synonym event = string

datatype target = ProgressiveDown event | ProgressiveNext event | ProgressiveUp event

text \<open>
  Modelled from the spec (section 4.3): the schedule, whose class
  \<^verbatim>\<open>cactus.progressive.schedule.Schedule\<close> is not among the source files, as the three
  queries that the driver makes.
\<close>

record schedule =
  deps :: "event \<Rightarrow> event list"
  followOn :: "event \<Rightarrow> event option"
  isVirtual :: "event \<Rightarrow> bool"

text \<open>What a \<^verbatim>\<open>run\<close> has handed to jobTree when it returns.\<close>

record submitted =
  childTargets :: "target list"
  followOnTarget :: "target option"

text \<open>\<^verbatim>\<open>ProgressiveDown.run\<close>, lines 59 to 70.\<close>

definition ProgressiveDown_run :: "bool \<Rightarrow> schedule \<Rightarrow> event \<Rightarrow> submitted" where
  "ProgressiveDown_run nonRecursive sched event =
     \<lparr>childTargets = (if \<not> nonRecursive then map ProgressiveDown (deps sched event) else []),
      followOnTarget = Some (ProgressiveNext event)\<rparr>"

text \<open>\<^verbatim>\<open>ProgressiveNext.run\<close>, lines 80 to 88: both targets are added as children.\<close>

definition ProgressiveNext_run :: "schedule \<Rightarrow> event \<Rightarrow> submitted" where
  "ProgressiveNext_run sched event =
     \<lparr>childTargets =
        (if \<not> isVirtual sched event then [ProgressiveUp event] else []) @
        (case followOn sched event of
           None \<Rightarrow> []
         | Some followOnEvent \<Rightarrow> [ProgressiveDown followOnEvent]),
      followOnTarget = None\<rparr>"

text \<open>
  \<^verbatim>\<open>ProgressiveUp.run\<close> is the work step of its event: the targets that it submits (the
  alignment workflow and \<^verbatim>\<open>FinishUp\<close>) belong to that step and are not followed here.
\<close>

definition run :: "bool \<Rightarrow> schedule \<Rightarrow> target \<Rightarrow> submitted" where
  "run nonRecursive sched tg =
     (case tg of
        ProgressiveDown event \<Rightarrow> ProgressiveDown_run nonRecursive sched event
      | ProgressiveNext event \<Rightarrow> ProgressiveNext_run sched event
      | ProgressiveUp event \<Rightarrow> \<lparr>childTargets = [], followOnTarget = None\<rparr>)"








section \<open>Bounded frontiers\<close>

lemma loop_is_spec_frontier:
  "getSubtreeLeaves_loop t cur (concat (map (getChildren t) cur)) = spec_frontier t cur"
proof (induction t cur rule: spec_frontier.induct)
  case (1 t frontier)
  show ?case
    using 1
    by (subst getSubtreeLeaves_loop.simps, subst spec_frontier.simps) (simp add: Let_def)
qed

lemma spec_frontier_bounded:
  "length cur \<le> subtreeSize t \<Longrightarrow> length (spec_frontier t cur) \<le> subtreeSize t"
proof (induction t cur rule: spec_frontier.induct)
  case (1 t frontier)
  show ?case
    using 1 by (subst spec_frontier.simps) (simp add: Let_def)
qed

text \<open>
  C1. For a node with at most \<^verbatim>\<open>subtreeSize\<close> direct children,
  \<^verbatim>\<open>getSubtreeLeaves\<close> returns the frontier that the specification describes: start
  from the direct children and move to the next frontier as long as it has at most
  \<^verbatim>\<open>subtreeSize\<close> members and strictly more than the current one. The frontier
  returned has at most \<^verbatim>\<open>subtreeSize\<close> members.
\<close>

theorem getSubtreeLeaves_is_spec_frontier:
  assumes "length (getChildren t n) \<le> subtreeSize t"
  shows "getSubtreeLeaves t n = Inr (spec_frontier t (getChildren t n)) \<and>
         length (spec_frontier t (getChildren t n)) \<le> subtreeSize t"
proof -
  have "getSubtreeLeaves_loop t [] (getChildren t n) = spec_frontier t (getChildren t n)"
  proof (cases "getChildren t n = []")
    case True
    then show ?thesis
      by (subst getSubtreeLeaves_loop.simps, subst spec_frontier.simps) simp
  next
    case False
    with assms have "getSubtreeLeaves_loop t [] (getChildren t n) =
        getSubtreeLeaves_loop t (getChildren t n)
          (concat (map (getChildren t) (getChildren t n)))"
      by (subst getSubtreeLeaves_loop.simps) simp
    then show ?thesis
      by (simp add: loop_is_spec_frontier)
  qed
  with assms show ?thesis
    by (simp add: getSubtreeLeaves_def spec_frontier_bounded)
qed

lemma scenario_children:
  "getChildren scenario_tree 0 = [1, 4]" "getChildren scenario_tree 1 = [2, 3]"
  "getChildren scenario_tree 2 = []" "getChildren scenario_tree 3 = []"
  "getChildren scenario_tree 4 = []"
  by (simp_all add: getChildren_def scenario_tree_def)

lemma scenario_subtreeSize: "subtreeSize scenario_tree = 2"
  by (simp add: scenario_tree_def)

theorem getSubtreeLeaves_is_spec_frontier_witness:
  "length (getChildren scenario_tree 0) \<le> subtreeSize scenario_tree \<and>
   getSubtreeLeaves scenario_tree 0 = Inr [1, 4] \<and>
   spec_frontier scenario_tree (getChildren scenario_tree 0) = [1, 4]"
proof -
  have small: "length (getChildren scenario_tree 0) \<le> subtreeSize scenario_tree"
    by (simp add: scenario_children scenario_subtreeSize)
  have "spec_frontier scenario_tree [1, 4] = [1, 4]"
    by (subst spec_frontier.simps) (simp add: scenario_children scenario_subtreeSize)
  with small getSubtreeLeaves_is_spec_frontier [OF small] show ?thesis
    by (simp add: scenario_children)
qed

section \<open>A node with more children than \<^verbatim>\<open>subtreeSize\<close>\<close>

lemma getChildren_subtreeRoots_update [simp]:
  "getChildren (t\<lparr>subtreeRoots := X\<rparr>) n = getChildren t n"
  by (simp add: getChildren_def)

lemma getSubtreeLeaves_over_cap:
  "subtreeSize t < length (getChildren t n) \<Longrightarrow> getSubtreeLeaves t n = Inl AssertionError"
  by (simp add: getSubtreeLeaves_def)

lemma wide_children: "getChildren wide_tree 0 = [1, 2, 3]"
  by (simp add: getChildren_def wide_tree_def)

lemma wide_fields:
  "subtreeSize wide_tree = 2" "rootId wide_tree = 0" "subtreeRoots wide_tree = {}"
  by (simp_all add: wide_tree_def)

text \<open>
  C2, as stated, fails: the root of \<^verbatim>\<open>wide_tree\<close> has three children under
  \<^verbatim>\<open>subtreeSize = 2\<close>, and \<^verbatim>\<open>getSubtreeLeaves\<close> does not hand back an empty
  frontier; the assertion of line 105 raises.
\<close>

theorem over_cap_counterexample:
  "subtreeSize wide_tree < length (getChildren wide_tree 0) \<and>
   getSubtreeLeaves wide_tree 0 \<noteq> Inr [] \<and>
   getSubtreeLeaves wide_tree 0 = Inl AssertionError"
proof -
  have "subtreeSize wide_tree < length (getChildren wide_tree 0)"
    by (simp add: wide_children wide_fields)
  then show ?thesis
    by (simp add: getSubtreeLeaves_over_cap)
qed

text \<open>
  C2, amended. For a node with more than \<^verbatim>\<open>subtreeSize\<close> direct children,
  \<^verbatim>\<open>getSubtreeLeaves\<close> raises \<^verbatim>\<open>AssertionError\<close>, and so does
  \<^verbatim>\<open>computeSubtreeRoots\<close> when it reaches the node, whether it is the root of the
  whole tree (the call without an argument) or a node that is not yet a subtree root;
  the node has then been added to the subtree roots.
\<close>

theorem over_cap_raises:
  assumes "subtreeSize t < length (getChildren t n)"
  shows "getSubtreeLeaves t n = Inl AssertionError \<and>
         (n \<notin> subtreeRoots t \<longrightarrow>
            computeSubtreeRoots (Suc depth) t (Some n) =
              Raises AssertionError (t\<lparr>subtreeRoots := insert n (subtreeRoots t)\<rparr>)) \<and>
         (n = rootId t \<longrightarrow>
            computeSubtreeRoots (Suc depth) t None =
              Raises AssertionError (t\<lparr>subtreeRoots := {n}\<rparr>))"
proof -
  have "getSubtreeLeaves (t\<lparr>subtreeRoots := X\<rparr>) n = Inl AssertionError" for X
    using assms by (simp add: getSubtreeLeaves_over_cap)
  moreover have "getSubtreeLeaves t n = Inl AssertionError"
    using assms by (rule getSubtreeLeaves_over_cap)
  ultimately show ?thesis
    by (auto simp: Let_def)
qed

theorem over_cap_raises_witness:
  "subtreeSize wide_tree < length (getChildren wide_tree 0) \<and>
   getSubtreeLeaves wide_tree 0 = Inl AssertionError \<and>
   computeSubtreeRoots (Suc 0) wide_tree (Some 0) =
     Raises AssertionError (wide_tree\<lparr>subtreeRoots := {0}\<rparr>) \<and>
   computeSubtreeRoots (Suc 0) wide_tree None =
     Raises AssertionError (wide_tree\<lparr>subtreeRoots := {0}\<rparr>)"
proof -
  have big: "subtreeSize wide_tree < length (getChildren wide_tree 0)"
    by (simp add: wide_children wide_fields)
  show ?thesis
    using big over_cap_raises [OF big, of 0] by (simp add: wide_fields)
qed

section \<open>\<^verbatim>\<open>getSubtreeRoot\<close>\<close>

lemma scenario_index:
  "nameToId scenario_tree ''A'' = Some 2" "nameToId scenario_tree ''Anc1'' = Some 0"
  "nameToId scenario_tree ''nobody'' = None" "nameToId scenario_tree ''og'' = None"
  by (simp_all add: scenario_tree_def)

lemma scenario_fields:
  "nodes scenario_tree = [0, 1, 2, 3, 4]"
  "edges scenario_tree = [(0, 1), (1, 2), (1, 3), (0, 4)]"
  "rootId scenario_tree = 0" "subtreeRoots scenario_tree = {0, 1}"
  by (simp_all add: scenario_tree_def)

text \<open>
  C5, as stated, fails twice on the partitioned \<^verbatim>\<open>scenario_tree\<close>: the lookup of a
  name that is not registered raises \<^verbatim>\<open>KeyError\<close> instead of handing back
  \<^verbatim>\<open>None\<close>, and the lookup of the leaf A, whose parent Anc0 is a subtree root,
  raises \<^verbatim>\<open>UnboundLocalError\<close> instead of handing back the name Anc0.
\<close>

theorem getSubtreeRoot_counterexample:
  "nameToId scenario_tree ''nobody'' = None \<and>
   getSubtreeRoot scenario_tree ''nobody'' = Inl KeyError \<and>
   getSubtreeRoot scenario_tree ''nobody'' \<noteq> Inr PyNone \<and>
   nameToId scenario_tree ''A'' = Some 2 \<and> getParent scenario_tree 2 = Some 1 \<and>
   1 \<in> subtreeRoots scenario_tree \<and> getName scenario_tree 1 = ''Anc0'' \<and>
   getSubtreeRoot scenario_tree ''A'' = Inl UnboundLocalError \<and>
   getSubtreeRoot scenario_tree ''A'' \<noteq> Inr (NodeName ''Anc0'')"
  by (simp add: getSubtreeRoot_def scenario_index scenario_fields getParent_def getName_def)
     (simp add: scenario_tree_def)

text \<open>
  C5, amended. \<^verbatim>\<open>getSubtreeRoot\<close> on a name that is not registered raises
  \<^verbatim>\<open>KeyError\<close>; on the registered name of the global root it returns the id of the
  root. (What it does on the name of any other node is left out here.)
\<close>

theorem getSubtreeRoot_by_design:
  "(nameToId t nm = None \<longrightarrow> getSubtreeRoot t nm = Inl KeyError) \<and>
   (nameToId t nm = Some (rootId t) \<longrightarrow> getSubtreeRoot t nm = Inr (NodeId (rootId t)))"
  by (simp add: getSubtreeRoot_def)

theorem getSubtreeRoot_by_design_witness:
  "nameToId scenario_tree ''nobody'' = None \<and>
   getSubtreeRoot scenario_tree ''nobody'' = Inl KeyError \<and>
   nameToId scenario_tree ''Anc1'' = Some (rootId scenario_tree) \<and>
   getSubtreeRoot scenario_tree ''Anc1'' = Inr (NodeId 0)"
  using getSubtreeRoot_by_design [of scenario_tree "''nobody''"]
    getSubtreeRoot_by_design [of scenario_tree "''Anc1''"]
  by (simp add: scenario_index scenario_fields)

section \<open>Facts about trees and fresh ids\<close>

lemma sorted_le_last: "sorted ys \<Longrightarrow> x \<in> set ys \<Longrightarrow> x \<le> last (ys :: int list)"
  by (induction ys) auto

lemma le_last_sort: "x \<in> set xs \<Longrightarrow> x \<le> last (sort (xs :: int list))"
  using sorted_le_last [of "sort xs" x] by simp

lemma bfs_prefix: "bfs d t level = Some xs \<Longrightarrow> \<exists>ys. xs = level @ ys"
  by (cases d) (auto split: if_splits)

lemma isTree_traversal:
  "isTree t \<Longrightarrow> \<exists>xs. breadthFirstTraversal t = Some xs \<and> distinct xs \<and> set xs = set (nodes t)"
  by (auto simp: isTree_def split: option.splits)

lemma isTree_root_node: "isTree t \<Longrightarrow> rootId t \<in> set (nodes t)"
proof -
  assume "isTree t"
  then obtain xs where xs: "breadthFirstTraversal t = Some xs" "set xs = set (nodes t)"
    using isTree_traversal by blast
  from xs(1) obtain ys where "xs = [rootId t] @ ys"
    unfolding breadthFirstTraversal_def using bfs_prefix by blast
  with xs(2) show ?thesis by auto
qed

lemma getNextIndex_fresh:
  assumes "isTree t"
  shows "\<exists>i. getNextIndex t = Returns i \<and> (\<forall>n \<in> set (nodes t). n < i)"
proof -
  from assms obtain xs where xs: "breadthFirstTraversal t = Some xs" "set xs = set (nodes t)"
    using isTree_traversal by blast
  from assms have "rootId t \<in> set (nodes t)" by (rule isTree_root_node)
  with xs have "xs \<noteq> []" by auto
  with xs have "getNextIndex t = Returns (last (sort xs) + 1)"
    by (simp add: getNextIndex_def)
  moreover have "\<forall>n \<in> set (nodes t). n < last (sort xs) + 1"
    using le_last_sort [of _ xs] xs(2) by fastforce
  ultimately show ?thesis by blast
qed

lemma leaf_root_single:
  assumes "isTree t" "isLeaf t (rootId t)"
  shows "nodes t = [rootId t] \<and> edges t = []"
proof -
  from assms(1) obtain xs where xs: "breadthFirstTraversal t = Some xs" "set xs = set (nodes t)"
    using isTree_traversal by blast
  from assms(2) have ch: "getChildren t (rootId t) = []" by (simp add: isLeaf_def)
  have "xs = [rootId t]"
    using xs(1) ch unfolding breadthFirstTraversal_def
    by (cases "length (nodes t)") auto
  with xs(2) have "set (nodes t) = {rootId t}" by simp
  moreover from assms(1) have "distinct (nodes t)" by (simp add: isTree_def)
  ultimately have n: "nodes t = [rootId t]"
    by (metis distinct.simps(2) distinct_singleton empty_iff insert_iff list.exhaust list.set(1) list.set(2) set_ConsD)
  have "edges t = []"
  proof (rule ccontr)
    assume "edges t \<noteq> []"
    then obtain e where e: "e \<in> set (edges t)" by (cases "edges t") auto
    with assms(1) n have "fst e = rootId t" by (auto simp: isTree_def)
    with e have "snd e \<in> set (getChildren t (rootId t))"
      by (force simp: getChildren_def)
    with ch show False by simp
  qed
  with n show ?thesis by simp
qed


section \<open>\<^verbatim>\<open>addOutgroup\<close>\<close>

lemma setName_fresh:
  assumes "\<forall>m \<in> set (nodes t). m \<noteq> n \<longrightarrow> name t m \<noteq> s \<or> s = []"
  shows "setName t n s = Returns (t\<lparr>name := (name t)(n := s)\<rparr>)"
  using assms by (auto simp: setName_def)

lemma addOutgroup_inner:
  assumes tree: "isTree t" and inner: "\<not> isLeaf t (rootId t)"
    and absent: "og \<notin> dom (nameToId t)" and idx: "names_indexed t"
    and nxt: "getNextIndex t = Returns i" and fresh: "\<forall>n \<in> set (nodes t). n < i"
  shows "addOutgroup halve t og d =
     Returns (t\<lparr>nodes := nodes t @ [i], edges := edges t @ [(rootId t, i)],
                name := (name t)(i := og),
                weight := (weight t)((rootId t, i) := Some d),
                nameToId := (nameToId t)(og := Some i)\<rparr>)"
proof -
  have r: "rootId t \<in> set (nodes t)" using tree by (rule isTree_root_node)
  have i: "i \<notin> set (nodes t)" using fresh by auto
  have "(rootId t, i) \<notin> set (edges t)"
    using tree i by (force simp: isTree_def)
  then have e: "nx_add_edge t (rootId t) i =
      t\<lparr>nodes := nodes t @ [i], name := (name t)(i := []),
        edges := edges t @ [(rootId t, i)], weight := (weight t)((rootId t, i) := None)\<rparr>"
    using r i by (simp add: nx_add_edge_def nx_add_node_def Let_def)
  have "\<forall>m \<in> set (nodes t). name t m \<noteq> og \<or> og = []"
    using idx absent by (auto simp: names_indexed_def hasName_def getName_def)
  then have "setName (nx_add_edge t (rootId t) i) i og =
      Returns ((nx_add_edge t (rootId t) i)\<lparr>name := (name (nx_add_edge t (rootId t) i))(i := og)\<rparr>)"
    by (intro setName_fresh) (auto simp: e)
  then show ?thesis
    using inner absent nxt by (simp add: addOutgroup_def e setWeight_def)
qed


lemma addOutgroup_leaf:
  assumes tree: "isTree t" and leaf: "isLeaf t (rootId t)"
    and absent: "og \<notin> dom (nameToId t)" and idx: "names_indexed t"
  shows "addOutgroup halve t og d =
     Returns (t\<lparr>nodes := [rootId t, rootId t + 1, rootId t + 2],
                edges := [(rootId t + 1, rootId t), (rootId t + 1, rootId t + 2)],
                name := (name t)(rootId t + 1 := [], rootId t + 2 := og),
                weight := (weight t)((rootId t + 1, rootId t) := Some (halve d),
                            (rootId t + 1, rootId t + 2) := Some (halve d)),
                rootId := rootId t + 1,
                nameToId := (nameToId t)(og := Some (rootId t + 2))\<rparr>)"
proof -
  from tree leaf have n: "nodes t = [rootId t]" and e: "edges t = []"
    using leaf_root_single by blast+
  have next1: "getNextIndex t = Returns (rootId t + 1)"
    using e n by (simp add: getNextIndex_def breadthFirstTraversal_def getChildren_def)
  have above: "insertAbove t (rootId t) (rootId t + 1) [] (Some (halve d)) =
      Returns (t\<lparr>nodes := [rootId t, rootId t + 1], edges := [(rootId t + 1, rootId t)],
                 name := (name t)(rootId t + 1 := []),
                 weight := (weight t)((rootId t + 1, rootId t) := Some (halve d)),
                 rootId := rootId t + 1\<rparr>)" (is "_ = Returns ?t1")
    using e n by (simp add: insertAbove_def getParent_def nx_add_node_def nx_add_edge_def
        setName_def setWeight_def Let_def)
  have next2: "getNextIndex ?t1 = Returns (rootId t + 2)"
    by (simp add: getNextIndex_def breadthFirstTraversal_def getChildren_def)
  have named: "name t (rootId t) \<noteq> og \<or> og = []"
    using idx absent n by (auto simp: names_indexed_def hasName_def getName_def)
  show ?thesis
    using leaf absent named
    by (auto simp: addOutgroup_def next1 above next2 nx_add_edge_def nx_add_node_def
        setName_def setWeight_def Let_def)
qed


lemma addOutgroup_never_asserts_later:
  assumes "og \<notin> dom (nameToId t)"
  shows "addOutgroup halve t og d \<noteq> Raises AssertionError s"
  using assms
  by (auto simp: addOutgroup_def insertAbove_def getNextIndex_def setName_def Let_def
      split: option.splits outcome.splits if_splits prod.splits)

text \<open>
  C9. When the name is already a key of the name index, \<^verbatim>\<open>addOutgroup\<close> raises the
  \<^verbatim>\<open>AssertionError\<close> of line 168 at once, and the tree at the failure is the tree
  as it was: nodes, edges, weights, names and subtree roots. When the name is not a key,
  that assertion never fails, whatever the tree; on a tree whose names are indexed the
  call returns.
\<close>

theorem addOutgroup_conflict:
  "(og \<in> dom (nameToId t) \<longrightarrow> addOutgroup halve t og d = Raises AssertionError t) \<and>
   (og \<notin> dom (nameToId t) \<longrightarrow>
      (\<forall>s. addOutgroup halve t og d \<noteq> Raises AssertionError s) \<and>
      (isTree t \<and> names_indexed t \<longrightarrow> (\<exists>t'. addOutgroup halve t og d = Returns t')))"
proof (intro conjI impI allI)
  assume "og \<in> dom (nameToId t)"
  then show "addOutgroup halve t og d = Raises AssertionError t"
    by (simp add: addOutgroup_def)
next
  fix s assume "og \<notin> dom (nameToId t)"
  then show "addOutgroup halve t og d \<noteq> Raises AssertionError s"
    by (rule addOutgroup_never_asserts_later)
next
  assume absent: "og \<notin> dom (nameToId t)" and ok: "isTree t \<and> names_indexed t"
  show "\<exists>t'. addOutgroup halve t og d = Returns t'"
  proof (cases "isLeaf t (rootId t)")
    case True
    from ok have "isTree t" "names_indexed t" by simp_all
    from addOutgroup_leaf [OF this(1) True absent this(2), of halve d]
    show ?thesis by simp
  next
    case False
    from ok have ok': "isTree t" "names_indexed t" by simp_all
    from ok' obtain i where i: "getNextIndex t = Returns i" "\<forall>n \<in> set (nodes t). n < i"
      using getNextIndex_fresh by blast
    from addOutgroup_inner [OF ok'(1) False absent ok'(2) i, of halve d]
    show ?thesis by simp
  qed
qed

lemma scenario_bfs: "breadthFirstTraversal scenario_tree = Some [0, 1, 4, 2, 3]"
  by (simp add: breadthFirstTraversal_def scenario_fields scenario_children)

lemma scenario_isTree: "isTree scenario_tree"
  by (simp add: isTree_def scenario_bfs scenario_fields) auto

lemma scenario_names:
  "name scenario_tree 0 = ''Anc1''" "name scenario_tree 1 = ''Anc0''"
  "name scenario_tree 2 = ''A''" "name scenario_tree 3 = ''B''" "name scenario_tree 4 = ''C''"
  by (simp_all add: scenario_tree_def)

lemma scenario_names_indexed: "names_indexed scenario_tree"
  by (simp add: names_indexed_def hasName_def getName_def scenario_fields scenario_names)
     (simp add: scenario_tree_def)


theorem addOutgroup_conflict_witness:
  "''A'' \<in> dom (nameToId scenario_tree) \<and>
   addOutgroup (\<lambda>x. x / 2) scenario_tree ''A'' 3 = Raises AssertionError scenario_tree \<and>
   ''og'' \<notin> dom (nameToId scenario_tree) \<and>
   isTree scenario_tree \<and> names_indexed scenario_tree \<and>
   (\<forall>s. addOutgroup (\<lambda>x. x / 2) scenario_tree ''og'' 3 \<noteq> Raises AssertionError s) \<and>
   (\<exists>t'. addOutgroup (\<lambda>x. x / 2) scenario_tree ''og'' 3 = Returns t')"
  using addOutgroup_conflict [where og = "''A''" and t = scenario_tree and d = 3
      and halve = "\<lambda>x. x / 2"]
    addOutgroup_conflict [where og = "''og''" and t = scenario_tree and d = 3
      and halve = "\<lambda>x. x / 2"]
  by (simp add: scenario_index scenario_isTree scenario_names_indexed dom_def)

lemma lone_fields:
  "nodes lone_tree = [0]" "edges lone_tree = []" "rootId lone_tree = 0"
  "nameToId lone_tree ''og'' = None" "name lone_tree 0 = ''human''"
  by (simp_all add: lone_tree_def)

lemma lone_isTree: "isTree lone_tree"
  by (simp add: isTree_def breadthFirstTraversal_def getChildren_def lone_fields)

lemma lone_names_indexed: "names_indexed lone_tree"
  by (simp add: names_indexed_def hasName_def getName_def lone_fields)
     (simp add: lone_tree_def)

lemma lone_leaf: "isLeaf lone_tree (rootId lone_tree)"
  by (simp add: isLeaf_def getChildren_def lone_fields)

lemma lone_og_absent: "''og'' \<notin> dom (nameToId lone_tree)"
  by (simp add: lone_fields dom_def)

lemma lone_int_fields:
  "nodes lone_int_tree = [0]" "edges lone_int_tree = []" "rootId lone_int_tree = 0"
  "nameToId lone_int_tree ''og'' = None" "name lone_int_tree 0 = ''human''"
  by (simp_all add: lone_int_tree_def)

lemma lone_int_isTree: "isTree lone_int_tree"
  by (simp add: isTree_def breadthFirstTraversal_def getChildren_def lone_int_fields)

lemma lone_int_names_indexed: "names_indexed lone_int_tree"
  by (simp add: names_indexed_def hasName_def getName_def lone_int_fields)
     (simp add: lone_int_tree_def)

lemma lone_int_leaf: "isLeaf lone_int_tree (rootId lone_int_tree)"
  by (simp add: isLeaf_def getChildren_def lone_int_fields)

lemma lone_int_og_absent: "''og'' \<notin> dom (nameToId lone_int_tree)"
  by (simp add: lone_int_fields dom_def)

text \<open>
  C3, as stated, fails on the single leaf \<^verbatim>\<open>lone_int_tree\<close> with the int distance
  3: under Python 2 \<^verbatim>\<open>3 / 2\<close> is 1, so both edges below the new root carry 1,
  which is not half of 3.
\<close>

theorem addOutgroup_half_counterexample:
  "isTree lone_int_tree \<and> isLeaf lone_int_tree (rootId lone_int_tree) \<and>
   (\<exists>t'. addOutgroup (\<lambda>n. n div 2) lone_int_tree ''og'' 3 = Returns t' \<and>
      getChildren t' (rootId t') = [0, 2] \<and>
      getWeight t' (rootId t') 0 = Some 1 \<and> getWeight t' (rootId t') 2 = Some 1 \<and>
      (2 :: int) * 1 \<noteq> 3)"
proof -
  let ?t' = "lone_int_tree\<lparr>nodes := [0, 1, 2], edges := [(1, 0), (1, 2)],
      name := (name lone_int_tree)(1 := [], 2 := ''og''),
      weight := (weight lone_int_tree)((1, 0) := Some 1, (1, 2) := Some 1),
      rootId := 1, nameToId := (nameToId lone_int_tree)(''og'' := Some 2)\<rparr>"
  have "addOutgroup (\<lambda>n. n div 2) lone_int_tree ''og'' 3 = Returns ?t'"
    using addOutgroup_leaf [OF lone_int_isTree lone_int_leaf lone_int_og_absent
        lone_int_names_indexed, where halve = "\<lambda>n. n div 2" and d = 3]
    by (simp add: lone_int_fields)
  moreover have "getChildren ?t' (rootId ?t') = [0, 2]"
    "getWeight ?t' (rootId ?t') 0 = Some 1" "getWeight ?t' (rootId ?t') 2 = Some 1"
    by (simp_all add: getChildren_def getWeight_def)
  ultimately show ?thesis
    using lone_int_isTree lone_int_leaf by simp
qed

text \<open>
  C3, amended. On a tree whose names are indexed, with a name that is not taken,
  \<^verbatim>\<open>addOutgroup\<close> returns. If the root was a leaf, the result has a new root with
  exactly two children, the old root and the new outgroup leaf, each on an edge whose
  weight is the value of \<^verbatim>\<open>distance / 2\<close> as Python computes it, and the old root
  still is a leaf with its name. If the root was not a leaf, the result has one node
  more, the outgroup leaf, and one edge more, from the unchanged root to that leaf with
  the full distance; the other nodes, edges, names and weights are as they were. The
  subtree roots are unchanged in both cases.
\<close>

theorem addOutgroup_shape:
  assumes "isTree t" and "names_indexed t" and "og \<notin> dom (nameToId t)"
  shows "\<exists>t' leaf. addOutgroup halve t og d = Returns t' \<and>
     leaf \<notin> set (nodes t) \<and> getName t' leaf = og \<and> isLeaf t' leaf \<and>
     subtreeRoots t' = subtreeRoots t \<and>
     (if isLeaf t (rootId t)
      then rootId t' \<notin> set (nodes t) \<and> rootId t' \<noteq> leaf \<and>
           nodes t' = [rootId t, rootId t', leaf] \<and>
           edges t' = [(rootId t', rootId t), (rootId t', leaf)] \<and>
           getChildren t' (rootId t') = [rootId t, leaf] \<and>
           getWeight t' (rootId t') (rootId t) = Some (halve d) \<and>
           getWeight t' (rootId t') leaf = Some (halve d) \<and>
           isLeaf t' (rootId t) \<and> getName t' (rootId t) = getName t (rootId t)
      else rootId t' = rootId t \<and>
           nodes t' = nodes t @ [leaf] \<and>
           edges t' = edges t @ [(rootId t, leaf)] \<and>
           getWeight t' (rootId t) leaf = Some d \<and>
           weight t' = (weight t)((rootId t, leaf) := Some d) \<and>
           name t' = (name t)(leaf := og))"
proof (cases "isLeaf t (rootId t)")
  case True
  from assms(1) True have n: "nodes t = [rootId t]"
    using leaf_root_single by blast
  let ?t' = "t\<lparr>nodes := [rootId t, rootId t + 1, rootId t + 2],
                edges := [(rootId t + 1, rootId t), (rootId t + 1, rootId t + 2)],
                name := (name t)(rootId t + 1 := [], rootId t + 2 := og),
                weight := (weight t)((rootId t + 1, rootId t) := Some (halve d),
                            (rootId t + 1, rootId t + 2) := Some (halve d)),
                rootId := rootId t + 1,
                nameToId := (nameToId t)(og := Some (rootId t + 2))\<rparr>"
  have "addOutgroup halve t og d = Returns ?t'"
    by (rule addOutgroup_leaf [OF assms(1) True assms(3) assms(2)])
  then show ?thesis
    using True n
    by (intro exI [of _ ?t'] exI [of _ "rootId t + 2"])
       (simp add: getName_def isLeaf_def getChildren_def getWeight_def)
next
  case False
  from assms(1) obtain i where i: "getNextIndex t = Returns i" "\<forall>n \<in> set (nodes t). n < i"
    using getNextIndex_fresh by blast
  let ?t' = "t\<lparr>nodes := nodes t @ [i], edges := edges t @ [(rootId t, i)],
                name := (name t)(i := og),
                weight := (weight t)((rootId t, i) := Some d),
                nameToId := (nameToId t)(og := Some i)\<rparr>"
  have r: "addOutgroup halve t og d = Returns ?t'"
    using assms(1) False assms(3) assms(2) i by (rule addOutgroup_inner)
  have fresh: "i \<notin> set (nodes t)" using i(2) by auto
  with assms(1) have "\<forall>e \<in> set (edges t). fst e \<noteq> i"
    by (auto simp: isTree_def)
  then have "filter (\<lambda>e. fst e = i) (edges t) = []"
    by (auto simp: filter_empty_conv)
  moreover from assms(1) have "rootId t \<in> set (nodes t)" by (rule isTree_root_node)
  ultimately show ?thesis
    using False r fresh
    by (intro exI [of _ ?t'] exI [of _ i])
       (auto simp: getName_def isLeaf_def getChildren_def getWeight_def)
qed


theorem addOutgroup_shape_witness:
  "isTree lone_tree \<and> names_indexed lone_tree \<and>
   ''og'' \<notin> dom (nameToId lone_tree) \<and>
   isLeaf lone_tree (rootId lone_tree) \<and>
   (\<exists>t' leaf. addOutgroup (\<lambda>x. x / 2) lone_tree ''og'' 3 = Returns t' \<and>
      nodes t' = [0, rootId t', leaf] \<and> getChildren t' (rootId t') = [0, leaf] \<and>
      getWeight t' (rootId t') 0 = Some (3 / 2) \<and>
      getWeight t' (rootId t') leaf = Some (3 / 2)) \<and>
   isTree scenario_tree \<and> names_indexed scenario_tree \<and>
   ''og'' \<notin> dom (nameToId scenario_tree) \<and>
   \<not> isLeaf scenario_tree (rootId scenario_tree) \<and>
   (\<exists>t' leaf. addOutgroup (\<lambda>x. x / 2) scenario_tree ''og'' 3 = Returns t' \<and>
      edges t' = edges scenario_tree @ [(0, leaf)] \<and> getWeight t' 0 leaf = Some 3)"
proof -
  have l: "isTree lone_tree" "names_indexed lone_tree"
    "''og'' \<notin> dom (nameToId lone_tree)"
    by (simp_all add: lone_isTree lone_names_indexed lone_og_absent)
  have s: "isTree scenario_tree" "names_indexed scenario_tree"
    "''og'' \<notin> dom (nameToId scenario_tree)"
    by (simp_all add: scenario_isTree scenario_names_indexed scenario_index dom_def)
  have sl: "\<not> isLeaf scenario_tree (rootId scenario_tree)"
    by (simp add: isLeaf_def scenario_children scenario_fields)
  from addOutgroup_shape [OF l, where halve = "\<lambda>x. x / 2" and d = 3] lone_leaf
  have "\<exists>t' leaf. addOutgroup (\<lambda>x. x / 2) lone_tree ''og'' 3 = Returns t' \<and>
      nodes t' = [0, rootId t', leaf] \<and> getChildren t' (rootId t') = [0, leaf] \<and>
      getWeight t' (rootId t') 0 = Some (3 / 2) \<and>
      getWeight t' (rootId t') leaf = Some (3 / 2)"
    by (simp add: lone_fields) blast
  moreover from addOutgroup_shape [OF s, where halve = "\<lambda>x. x / 2" and d = 3] sl
  have "\<exists>t' leaf. addOutgroup (\<lambda>x. x / 2) scenario_tree ''og'' 3 = Returns t' \<and>
      edges t' = edges scenario_tree @ [(0, leaf)] \<and> getWeight t' 0 leaf = Some 3"
    by (simp add: scenario_fields) blast
  ultimately show ?thesis
    using l s lone_leaf sl by simp
qed

section \<open>\<^verbatim>\<open>nameUnlabeledInternalNodes\<close>\<close>

lemma str_nat_nonempty: "str_nat n \<noteq> []"
  by (subst str_nat.simps) simp

lemma str_int_nonempty: "str_int i \<noteq> []"
  by (simp add: str_int_def str_nat_nonempty)

lemma bfs_cong: "edges t' = edges t \<Longrightarrow> bfs d t' level = bfs d t level"
proof (induction d arbitrary: level)
  case 0
  show ?case by simp
next
  case (Suc d)
  have "getChildren t' = getChildren t"
    unfolding getChildren_def fun_eq_iff Suc.prems by simp
  then have "concat (map (getChildren t') level) = concat (map (getChildren t) level)"
    by (rule arg_cong)
  then show ?case
    using Suc.IH [OF Suc.prems] by simp
qed

lemma breadthFirstTraversal_cong:
  "nodes t' = nodes t \<Longrightarrow> edges t' = edges t \<Longrightarrow> rootId t' = rootId t \<Longrightarrow>
   breadthFirstTraversal t' = breadthFirstTraversal t"
  using bfs_cong [of t' t "Suc (length (nodes t))" "[rootId t]"]
  by (simp add: breadthFirstTraversal_def)

lemma isLeaf_cong: "edges t' = edges t \<Longrightarrow> isLeaf t' n = isLeaf t n"
  by (simp add: isLeaf_def getChildren_def)

lemma setName_cases:
  "setName t n s = Returns (t\<lparr>name := (name t)(n := s)\<rparr>) \<or> setName t n s = Raises NameConflict t"
  by (simp add: setName_def)

lemma naming_loop_keeps:
  assumes "nameUnlabeledInternalNodes_loop t prefix count xs = Returns t' \<or>
           nameUnlabeledInternalNodes_loop t prefix count xs = Raises e t'"
  shows "nodes t' = nodes t \<and> edges t' = edges t \<and> rootId t' = rootId t \<and>
         (\<forall>n. isLeaf t n \<or> hasName t n \<or> n \<notin> set xs \<longrightarrow> name t' n = name t n)"
  using assms
proof (induction xs arbitrary: t count)
  case Nil
  then show ?case by simp
next
  case (Cons node rest)
  show ?case
  proof (cases "\<not> isLeaf t node \<and> \<not> hasName t node")
    case False
    let ?t1 = "t\<lparr>nameToId := (nameToId t)(getName t node := Some node)\<rparr>"
    from False Cons.prems
    have "nameUnlabeledInternalNodes_loop ?t1 prefix count rest = Returns t' \<or>
          nameUnlabeledInternalNodes_loop ?t1 prefix count rest = Raises e t'"
      by auto
    from Cons.IH [OF this] False show ?thesis
      by (auto simp: isLeaf_def getChildren_def hasName_def getName_def)
  next
    case True
    show ?thesis
    proof (cases "setName t node (prefix @ str_int count)")
      case (Returns t1)
      then have t1: "t1 = t\<lparr>name := (name t)(node := prefix @ str_int count)\<rparr>"
        using setName_cases [of t node "prefix @ str_int count"] by auto
      let ?t2 = "t1\<lparr>nameToId := (nameToId t1)(getName t1 node := Some node)\<rparr>"
      from True Returns Cons.prems
      have "nameUnlabeledInternalNodes_loop ?t2 prefix (count + 1) rest = Returns t' \<or>
            nameUnlabeledInternalNodes_loop ?t2 prefix (count + 1) rest = Raises e t'"
        by auto
      from Cons.IH [OF this]
      have ih: "nodes t' = nodes t1" "edges t' = edges t1" "rootId t' = rootId t1"
        "\<And>n. isLeaf t1 n \<or> hasName t1 n \<or> n \<notin> set rest \<Longrightarrow> name t' n = name t1 n"
        by (simp_all add: isLeaf_def getChildren_def hasName_def getName_def)
      have "name t' n = name t n" if "isLeaf t n \<or> hasName t n \<or> n \<notin> set (node # rest)" for n
      proof -
        from that True have ne: "n \<noteq> node" by auto
        with that have "isLeaf t1 n \<or> hasName t1 n \<or> n \<notin> set rest"
          by (auto simp: t1 isLeaf_def getChildren_def hasName_def getName_def)
        from ih(4) [OF this] ne show ?thesis by (simp add: t1)
      qed
      with ih(1-3) show ?thesis by (simp add: t1)
    next
      case (Raises e' s)
      then have "s = t" using setName_cases [of t node "prefix @ str_int count"] by auto
      with True Raises Cons.prems show ?thesis by auto
    next
      case Diverges
      then show ?thesis using setName_cases [of t node "prefix @ str_int count"] by auto
    qed
  qed
qed

lemma naming_loop_outcome:
  "(\<exists>t'. nameUnlabeledInternalNodes_loop t prefix count xs = Returns t') \<or>
   (\<exists>t'. nameUnlabeledInternalNodes_loop t prefix count xs = Raises NameConflict t')"
proof (induction xs arbitrary: t count)
  case Nil
  show ?case by simp
next
  case (Cons node rest)
  show ?case
    using setName_cases [of t node "prefix @ str_int count"] Cons.IH
    by (auto split: outcome.splits)
qed


lemma naming_loop_names:
  assumes "distinct xs" and "nameUnlabeledInternalNodes_loop t prefix count xs = Returns t'"
  shows "\<forall>k < length (filter (\<lambda>n. \<not> isLeaf t n \<and> \<not> hasName t n) xs).
           name t' (filter (\<lambda>n. \<not> isLeaf t n \<and> \<not> hasName t n) xs ! k) =
           prefix @ str_int (count + int k)"
  using assms
proof (induction xs arbitrary: t count)
  case Nil
  then show ?case by simp
next
  case (Cons node rest)
  from Cons.prems(1) have d: "distinct rest" and fresh: "node \<notin> set rest" by auto
  show ?case
  proof (cases "\<not> isLeaf t node \<and> \<not> hasName t node")
    case False
    let ?t1 = "t\<lparr>nameToId := (nameToId t)(getName t node := Some node)\<rparr>"
    from False Cons.prems(2)
    have run: "nameUnlabeledInternalNodes_loop ?t1 prefix count rest = Returns t'"
      by auto
    have same: "(\<lambda>n. \<not> isLeaf ?t1 n \<and> \<not> hasName ?t1 n) = (\<lambda>n. \<not> isLeaf t n \<and> \<not> hasName t n)"
      by (simp add: isLeaf_def getChildren_def hasName_def getName_def)
    from Cons.IH [OF d run] False show ?thesis
      unfolding same by auto
  next
    case True
    from True Cons.prems(2) obtain t1 where
      ret: "setName t node (prefix @ str_int count) = Returns t1"
      by (auto split: outcome.splits)
    then have t1: "t1 = t\<lparr>name := (name t)(node := prefix @ str_int count)\<rparr>"
      using setName_cases [of t node "prefix @ str_int count"] by auto
    let ?t2 = "t1\<lparr>nameToId := (nameToId t1)(getName t1 node := Some node)\<rparr>"
    from True ret Cons.prems(2)
    have run: "nameUnlabeledInternalNodes_loop ?t2 prefix (count + 1) rest = Returns t'"
      by auto
    have same: "filter (\<lambda>n. \<not> isLeaf ?t2 n \<and> \<not> hasName ?t2 n) rest =
                filter (\<lambda>n. \<not> isLeaf t n \<and> \<not> hasName t n) rest"
      using fresh
      by (intro filter_cong) (auto simp: t1 isLeaf_def getChildren_def hasName_def getName_def)
    have "hasName ?t2 node"
      by (simp add: t1 hasName_def getName_def str_int_nonempty)
    with naming_loop_keeps [of ?t2 prefix "count + 1" rest t'] run
    have first: "name t' node = prefix @ str_int count"
      by (auto simp: t1)
    have "name t' ((node # filter (\<lambda>n. \<not> isLeaf t n \<and> \<not> hasName t n) rest) ! k) =
          prefix @ str_int (count + int k)"
      if "k < Suc (length (filter (\<lambda>n. \<not> isLeaf t n \<and> \<not> hasName t n) rest))" for k
    proof (cases k)
      case 0
      with first show ?thesis by simp
    next
      case (Suc j)
      with that Cons.IH [OF d run] show ?thesis
        unfolding same by (auto simp: algebra_simps)
    qed
    with True show ?thesis by simp
  qed
qed

lemma naming_loop_all_named:
  assumes "nameUnlabeledInternalNodes_loop t prefix count xs = Returns t'"
  shows "\<forall>n \<in> set xs. isLeaf t' n \<or> hasName t' n"
  using assms
proof (induction xs arbitrary: t count)
  case Nil
  then show ?case by simp
next
  case (Cons node rest)
  obtain t2 c2 where run: "nameUnlabeledInternalNodes_loop t2 prefix c2 rest = Returns t'"
    and settled: "isLeaf t2 node \<or> hasName t2 node"
  proof (cases "\<not> isLeaf t node \<and> \<not> hasName t node")
    case False
    let ?t1 = "t\<lparr>nameToId := (nameToId t)(getName t node := Some node)\<rparr>"
    from False Cons.prems
    have "nameUnlabeledInternalNodes_loop ?t1 prefix count rest = Returns t'" by auto
    moreover from False have "isLeaf ?t1 node \<or> hasName ?t1 node"
      by (auto simp: isLeaf_def getChildren_def hasName_def getName_def)
    ultimately show ?thesis using that by blast
  next
    case True
    from True Cons.prems obtain t1 where
      ret: "setName t node (prefix @ str_int count) = Returns t1"
      by (auto split: outcome.splits)
    then have t1: "t1 = t\<lparr>name := (name t)(node := prefix @ str_int count)\<rparr>"
      using setName_cases [of t node "prefix @ str_int count"] by auto
    let ?t2 = "t1\<lparr>nameToId := (nameToId t1)(getName t1 node := Some node)\<rparr>"
    from True ret Cons.prems
    have "nameUnlabeledInternalNodes_loop ?t2 prefix (count + 1) rest = Returns t'" by auto
    moreover have "hasName ?t2 node"
      by (simp add: t1 hasName_def getName_def str_int_nonempty)
    ultimately show ?thesis using that by blast
  qed
  from naming_loop_keeps [of t2 prefix c2 rest t'] run
  have keep: "edges t' = edges t2"
    "\<And>n. isLeaf t2 n \<or> hasName t2 n \<Longrightarrow> name t' n = name t2 n"
    by auto
  from settled keep(2) [OF settled] isLeaf_cong [OF keep(1), of node]
  have "isLeaf t' node \<or> hasName t' node"
    by (auto simp: hasName_def getName_def)
  with Cons.IH [OF run] show ?case by simp
qed

lemma naming_loop_idle:
  assumes "\<forall>n \<in> set xs. isLeaf t n \<or> hasName t n"
  shows "\<exists>t''. nameUnlabeledInternalNodes_loop t prefix count xs = Returns t'' \<and>
           name t'' = name t \<and> nodes t'' = nodes t \<and> edges t'' = edges t \<and>
           rootId t'' = rootId t"
  using assms
proof (induction xs arbitrary: t)
  case Nil
  show ?case by simp
next
  case (Cons node rest)
  let ?t1 = "t\<lparr>nameToId := (nameToId t)(getName t node := Some node)\<rparr>"
  from Cons.prems have "\<forall>n \<in> set rest. isLeaf ?t1 n \<or> hasName ?t1 n"
    by (auto simp: isLeaf_def getChildren_def hasName_def getName_def)
  from Cons.IH [OF this] Cons.prems show ?case
    by auto
qed


text \<open>
  C8. On a tree, \<^verbatim>\<open>nameUnlabeledInternalNodes\<close> either returns or stops at a name
  conflict raised by \<^verbatim>\<open>setName\<close>; in both cases every leaf and every node that had a
  name keeps the name it had, and no node changes between leaf and internal. When the
  call returns, the internal nodes that had no name, taken in breadth-first order, carry
  the prefix followed by the counter \<^verbatim>\<open>startIdx\<close>, \<^verbatim>\<open>startIdx + 1\<close>, and so on; and a
  second call with the same arguments returns and changes no name.
\<close>

theorem nameUnlabeledInternalNodes_idempotent:
  assumes "isTree t"
  shows "\<exists>t' xs. breadthFirstTraversal t = Some xs \<and>
     (nameUnlabeledInternalNodes t prefix startIdx = Returns t' \<or>
      nameUnlabeledInternalNodes t prefix startIdx = Raises NameConflict t') \<and>
     (\<forall>n. isLeaf t n \<or> hasName t n \<longrightarrow> getName t' n = getName t n) \<and>
     (\<forall>n. isLeaf t' n = isLeaf t n) \<and>
     (nameUnlabeledInternalNodes t prefix startIdx = Returns t' \<longrightarrow>
        (\<forall>k < length (filter (\<lambda>n. \<not> isLeaf t n \<and> \<not> hasName t n) xs).
           getName t' (filter (\<lambda>n. \<not> isLeaf t n \<and> \<not> hasName t n) xs ! k) =
           prefix @ str_int (startIdx + int k)) \<and>
        (\<exists>t''. nameUnlabeledInternalNodes t' prefix startIdx = Returns t'' \<and>
           name t'' = name t'))"
proof -
  from assms obtain xs where xs: "breadthFirstTraversal t = Some xs" "distinct xs"
    using isTree_traversal by blast
  let ?run = "nameUnlabeledInternalNodes_loop t prefix startIdx xs"
  have call: "nameUnlabeledInternalNodes t prefix startIdx = ?run"
    by (simp add: nameUnlabeledInternalNodes_def xs(1))
  from naming_loop_outcome [of t prefix startIdx xs]
  obtain t' where t': "?run = Returns t' \<or> ?run = Raises NameConflict t'"
    by blast
  from naming_loop_keeps [OF t']
  have keep: "nodes t' = nodes t" "edges t' = edges t" "rootId t' = rootId t"
    "\<And>n. isLeaf t n \<or> hasName t n \<Longrightarrow> name t' n = name t n"
    by auto
  have again: "\<exists>t''. nameUnlabeledInternalNodes t' prefix startIdx = Returns t'' \<and>
      name t'' = name t'" if ret: "?run = Returns t'"
  proof -
    from naming_loop_all_named [OF ret]
    have "\<forall>n \<in> set xs. isLeaf t' n \<or> hasName t' n" .
    from naming_loop_idle [OF this, of prefix startIdx]
    obtain t'' where "nameUnlabeledInternalNodes_loop t' prefix startIdx xs = Returns t''"
      "name t'' = name t'" by blast
    moreover have "breadthFirstTraversal t' = Some xs"
      using breadthFirstTraversal_cong [OF keep(1-3)] xs(1) by simp
    ultimately show ?thesis
      by (simp add: nameUnlabeledInternalNodes_def)
  qed
  show ?thesis
    using xs(1) t' keep(4) isLeaf_cong [OF keep(2)]
      naming_loop_names [OF xs(2), of t prefix startIdx t'] again
    unfolding call getName_def
    by (intro exI [of _ t'] exI [of _ xs]) auto
qed

lemma str_int_small: "str_int 0 = ''0''" "str_int 1 = ''1''"
  by (simp_all add: str_int_def str_nat.simps [of 0] str_nat.simps [of "Suc 0"] digit_char_def)

lemma unnamed_fields:
  "nodes unnamed_tree = [0, 1, 2, 3, 4]"
  "edges unnamed_tree = [(0, 1), (1, 2), (1, 3), (0, 4)]"
  "rootId unnamed_tree = 0"
  "name unnamed_tree = (\<lambda>n. []) (2 := ''A'', 3 := ''B'', 4 := ''C'')"
  by (simp_all add: unnamed_tree_def)

lemma unnamed_children:
  "getChildren unnamed_tree 0 = [1, 4]" "getChildren unnamed_tree 1 = [2, 3]"
  "getChildren unnamed_tree 2 = []" "getChildren unnamed_tree 3 = []"
  "getChildren unnamed_tree 4 = []"
  by (simp_all add: getChildren_def unnamed_fields)

lemma unnamed_bfs: "breadthFirstTraversal unnamed_tree = Some [0, 1, 4, 2, 3]"
  by (simp add: breadthFirstTraversal_def unnamed_fields unnamed_children)

lemma unnamed_isTree: "isTree unnamed_tree"
  by (simp add: isTree_def unnamed_bfs unnamed_fields) auto

lemma unnamed_run:
  "\<exists>t'. nameUnlabeledInternalNodes unnamed_tree ''Anc'' 0 = Returns t' \<and>
     name t' = (\<lambda>n. []) (2 := ''A'', 3 := ''B'', 4 := ''C'', 0 := ''Anc0'', 1 := ''Anc1'')"
  by (simp add: nameUnlabeledInternalNodes_def unnamed_bfs isLeaf_def hasName_def getName_def
      getChildren_def setName_def str_int_small unnamed_fields)


theorem nameUnlabeledInternalNodes_idempotent_witness:
  "isTree unnamed_tree \<and>
   (\<exists>t'. nameUnlabeledInternalNodes unnamed_tree ''Anc'' 0 = Returns t' \<and>
      getName t' 0 = ''Anc0'' \<and> getName t' 1 = ''Anc1'' \<and> getName t' 2 = ''A'' \<and>
      (\<exists>t''. nameUnlabeledInternalNodes t' ''Anc'' 0 = Returns t'' \<and> name t'' = name t'))"
proof -
  from unnamed_run obtain t0 where
    t0: "nameUnlabeledInternalNodes unnamed_tree ''Anc'' 0 = Returns t0"
      "name t0 = (\<lambda>n. []) (2 := ''A'', 3 := ''B'', 4 := ''C'', 0 := ''Anc0'', 1 := ''Anc1'')"
    by blast
  from nameUnlabeledInternalNodes_idempotent [OF unnamed_isTree, of "''Anc''" 0] t0(1)
  have "\<exists>t''. nameUnlabeledInternalNodes t0 ''Anc'' 0 = Returns t'' \<and> name t'' = name t0"
    by auto
  with t0 unnamed_isTree show ?thesis
    by (simp add: getName_def)
qed

section \<open>\<^verbatim>\<open>addSelfEdges\<close>\<close>


























lemma scenario_self_facts:
  "getParent scenario_tree 1 = Some 0" "getParent scenario_tree 0 = None"
  "\<not> gets_self_node scenario_tree 0"
  "makeSelfName (getName scenario_tree 1) ''_self'' = ''Anc0_self''"
  "makeSelfName (getName scenario_tree 2) ''_self'' = ''A_self''"
  by code_simp+


section \<open>Branch lengths around a self node\<close>

lemma scenario_self_run:
  "(case addSelfEdges scenario_tree ''_self'' of
      Returns t' \<Rightarrow> Some (getParent t' 1, getParent t' 5, getWeight t' 0 5, getWeight t' 5 1,
                           getParent t' 2, getParent t' 7, getWeight t' 1 7, getWeight t' 7 2)
    | _ \<Rightarrow> None) =
   Some (Some 5, Some 0, Some 1, None, Some 7, Some 1, Some 1, Some 1)"
  by code_simp

text \<open>
  C10, on the tree of the scenario. Anc0 (node 1) hangs below the root, whose id is 0, on
  an edge of weight 1. After \<^verbatim>\<open>addSelfEdges\<close> the edge from the root to the self
  node 5 carries 1, but the edge from the self node down to Anc0 carries no weight:
  \<^verbatim>\<open>if parent:\<close> in line 151 is false for the id 0. Below node 1, whose id is not
  0, both edges around the self node 7 of the leaf A carry the old weight 1.
\<close>

theorem addSelfEdges_weight_lost_below_node_0:
  "getParent scenario_tree 1 = Some 0 \<and> getWeight scenario_tree 0 1 = Some 1 \<and>
   (\<exists>t'. addSelfEdges scenario_tree ''_self'' = Returns t' \<and>
      getParent t' 1 = Some 5 \<and> getParent t' 5 = Some 0 \<and>
      getWeight t' 0 5 = Some 1 \<and> getWeight t' 5 1 = None \<and>
      getParent t' 2 = Some 7 \<and> getParent t' 7 = Some 1 \<and>
      getWeight t' 1 7 = Some 1 \<and> getWeight t' 7 2 = Some 1)"
proof -
  have "getWeight scenario_tree 0 1 = Some 1"
    by (simp add: getWeight_def scenario_tree_def)
  with scenario_self_run scenario_self_facts(1) show ?thesis
    by (auto split: outcome.splits)
qed

section \<open>The follow-on event in the driver\<close>




end
